theory Spec2Isabelle
  imports
    Main
    "HOL-Library.Char_ord"
    "HOL-Library.List_Lexorder"
    "HOL-Library.Product_Lexorder"
    "HOL-Library.AList"
    "HOL-Library.Multiset"
begin

section \<open>Data model\<close>

text \<open>
  Python strings are modelled as \<^typ>\<open>string\<close> holding the UTF-8 bytes of the text.
  Concatenation and equality are those of the source, and the byte-wise lexicographic
  order of UTF-8 (\<open>Char_ord\<close> and \<open>List_Lexorder\<close>) is the code-point order in which
  Python compares \<open>str\<close> values.
\<close>

text \<open>An exception is kept with its class and its message; \<open>str\<close> is Python's \<open>str(e)\<close>.\<close>

datatype exn = ValueError string | HTTPError string | OtherException string

fun str :: "exn \<Rightarrow> string" where
  "str (ValueError m) = m"
| "str (HTTPError m) = m"
| "str (OtherException m) = m"

text \<open>
  One element of the JSON array of a directory listing, with the three keys the walker
  reads: \<open>item['name']\<close>, \<open>item['type']\<close> and \<open>item['url']\<close>.
\<close>

record item =
  name :: string
  type :: string
  url :: string

text \<open>
  The JSON object answered for a file: the \<open>content\<close> key is absent, or present with
  its (base64) text.
\<close>

datatype payload = NoContent | Content string

text \<open>The network requests of a run, in the order they are sent.\<close>

datatype request = ListDir string | GetFile string

text \<open>
  What lies outside the program. The remote side answers the \<open>t\<close>-th request of the run
  (\<open>t\<close> counts the requests sent before it), so its answers may change during the run.
  \<open>Inl\<close> is any exception of \<open>requests.get\<close>, \<open>raise_for_status\<close> or \<open>response.json\<close>;
  an answer is well formed: a listing is an array of objects with the three keys, a file
  is an object.
  \<open>decode\<close> stands for the library call \<open>base64.b64decode(c).decode('utf-8')\<close>, with
  \<open>None\<close> when either step raises.
\<close>

record env =
  list_remote :: "nat \<Rightarrow> string \<Rightarrow> exn + item list"
  file_remote :: "nat \<Rightarrow> string \<Rightarrow> exn + payload"
  decode :: "string \<Rightarrow> string option"

text \<open>
  The mutable state of one \<open>analyze_repo\<close> call: the analyzer's \<open>content_cache\<close>, the two
  local accumulators \<open>structure\<close> and \<open>contents\<close> (a Python dict keeps insertion order, so
  it is an association list updated in place), and the trace of requests sent so far.
\<close>

record walk =
  content_cache :: "string \<rightharpoonup> string"
  "structure" :: "string list"
  contents :: "(string \<times> string) list"
  requests :: "request list"

section \<open>URL Identity Parser\<close>











section \<open>Remote Directory Lister and File Content Fetcher\<close>

definition get_contents :: "env \<Rightarrow> string \<Rightarrow> walk \<Rightarrow> (exn + item list) \<times> walk" where
  "get_contents w path st =
     (list_remote w (length (requests st)) path,
      st\<lparr>requests := requests st @ [ListDir path]\<rparr>)"

definition no_content_marker :: string where
  "no_content_marker = ''Non-text content or unexpected format.''"

definition decode_error_marker :: string where
  "decode_error_marker = ''Error decoding content (possibly binary file).''"

definition get_file_content :: "env \<Rightarrow> string \<Rightarrow> walk \<Rightarrow> (exn + string) \<times> walk" where
  "get_file_content w file_api_url st =
     (case content_cache st file_api_url of
        Some cached \<Rightarrow> (Inr cached, st)
      | None \<Rightarrow>
          (let st1 = st\<lparr>requests := requests st @ [GetFile file_api_url]\<rparr> in
           case file_remote w (length (requests st)) file_api_url of
             Inl e \<Rightarrow> (Inl e, st1)
           | Inr NoContent \<Rightarrow>
               (Inr no_content_marker,
                st1\<lparr>content_cache := (content_cache st1)(file_api_url \<mapsto> no_content_marker)\<rparr>)
           | Inr (Content c) \<Rightarrow>
               (let content = (case decode w c of
                                 Some text \<Rightarrow> text
                               | None \<Rightarrow> decode_error_marker)
                in (Inr content,
                    st1\<lparr>content_cache := (content_cache st1)(file_api_url \<mapsto> content)\<rparr>))))"

section \<open>Tree Walker\<close>

text \<open>\<open>sorted(items, key=lambda x: (x['type'] != 'dir', x['name']))\<close>: a stable sort.\<close>

definition sort_key_of :: "item \<Rightarrow> bool \<times> string" where
  "sort_key_of x = (type x \<noteq> ''dir'', name x)"

definition sort_items :: "item list \<Rightarrow> item list" where
  "sort_items items = sort_key sort_key_of items"

text \<open>
  The box-drawing strings of the source, as UTF-8 bytes:
  U+2514 U+2500 U+2500 U+0020, U+251C U+2500 U+2500 U+0020 and U+2502 followed by three
  spaces.
\<close>

definition connector_last :: string where
  "connector_last =
     [CHR 0xE2, CHR 0x94, CHR 0x94, CHR 0xE2, CHR 0x94, CHR 0x80,
      CHR 0xE2, CHR 0x94, CHR 0x80, CHR '' '']"

definition connector_mid :: string where
  "connector_mid =
     [CHR 0xE2, CHR 0x94, CHR 0x9C, CHR 0xE2, CHR 0x94, CHR 0x80,
      CHR 0xE2, CHR 0x94, CHR 0x80, CHR '' '']"

definition prefix_last :: string where
  "prefix_last = ''    ''"

definition prefix_mid :: string where
  "prefix_mid = [CHR 0xE2, CHR 0x94, CHR 0x82, CHR '' '', CHR '' '', CHR '' '']"

definition connector :: "nat \<Rightarrow> nat \<Rightarrow> string" where
  "connector idx cnt = (if int idx = int cnt - 1 then connector_last else connector_mid)"

definition full_path :: "string \<Rightarrow> item \<Rightarrow> string" where
  "full_path path it = (if path \<noteq> [] then path @ ''/'' @ name it else name it)"

definition structure_path :: "string \<Rightarrow> nat \<Rightarrow> nat \<Rightarrow> item \<Rightarrow> string" where
  "structure_path prefix idx cnt it = prefix @ connector idx cnt @ name it"

definition new_prefix :: "string \<Rightarrow> nat \<Rightarrow> nat \<Rightarrow> string" where
  "new_prefix prefix idx cnt =
     prefix @ (if int idx = int cnt - 1 then prefix_last else prefix_mid)"

definition error_reading :: "exn \<Rightarrow> string" where
  "error_reading e = ''Error reading file: '' @ str e"

text \<open>
  \<open>process_path\<close> and its loop \<open>for idx, item in enumerate(items)\<close>, which runs over
  the pairs of \<open>List.enumerate 0 items\<close>. The first argument bounds the depth of the
  recursion, which the source leaves to the remote tree; \<open>None\<close> means the bound was
  reached. An exception leaves through \<open>Inl\<close>, with the state at that moment.
\<close>

fun process_path ::
    "nat \<Rightarrow> env \<Rightarrow> string \<Rightarrow> string \<Rightarrow> walk \<Rightarrow> ((exn + unit) \<times> walk) option"
  and process_items ::
    "nat \<Rightarrow> env \<Rightarrow> string \<Rightarrow> string \<Rightarrow> nat \<Rightarrow> (nat \<times> item) list \<Rightarrow> walk
       \<Rightarrow> ((exn + unit) \<times> walk) option"
where
  "process_path 0 w path prefix st = None"
| "process_path (Suc n) w path prefix st =
     (case get_contents w path st of
        (Inl e, st1) \<Rightarrow> Some (Inl e, st1)
      | (Inr items, st1) \<Rightarrow>
          (let items' = sort_items items; cnt = length items'
           in process_items n w path prefix cnt (enumerate 0 items') st1))"
| "process_items n w path prefix cnt [] st = Some (Inr (), st)"
| "process_items n w path prefix cnt ((idx, it) # rest) st =
     (let st1 = st\<lparr>structure := structure st @ [structure_path prefix idx cnt it]\<rparr> in
      if type it = ''dir'' then
        (case process_path n w (full_path path it) (new_prefix prefix idx cnt) st1 of
           None \<Rightarrow> None
         | Some (Inl e, st2) \<Rightarrow> Some (Inl e, st2)
         | Some (Inr u, st2) \<Rightarrow> process_items n w path prefix cnt rest st2)
      else
        (case get_file_content w (url it) st1 of
           (Inr content, st2) \<Rightarrow>
             process_items n w path prefix cnt rest
               (st2\<lparr>contents := AList.update (full_path path it) content (contents st2)\<rparr>)
         | (Inl e, st2) \<Rightarrow>
             process_items n w path prefix cnt rest
               (st2\<lparr>contents :=
                      AList.update (full_path path it) (error_reading e) (contents st2)\<rparr>)))"

text \<open>
  \<open>analyze_repo\<close> starts from empty accumulators at \<open>process_path('')\<close> and returns them;
  the cache and the request trace are those of the analyzer object.
\<close>

record analyzer =
  cache :: "string \<rightharpoonup> string"
  sent :: "request list"

definition analyze_repo ::
    "nat \<Rightarrow> env \<Rightarrow> analyzer
       \<Rightarrow> ((exn + string list \<times> (string \<times> string) list) \<times> analyzer) option" where
  "analyze_repo n w a =
     (case process_path n w [] []
             \<lparr>content_cache = cache a, structure = [], contents = [], requests = sent a\<rparr> of
        None \<Rightarrow> None
      | Some (Inl e, st) \<Rightarrow> Some (Inl e, \<lparr>cache = content_cache st, sent = requests st\<rparr>)
      | Some (Inr u, st) \<Rightarrow>
          Some (Inr (structure st, contents st),
                \<lparr>cache = content_cache st, sent = requests st\<rparr>))"

section \<open>Document Assembler\<close>

text \<open>\<open>sep.join(xs)\<close>\<close>

fun join :: "string \<Rightarrow> string list \<Rightarrow> string" where
  "join sep [] = []"
| "join sep [x] = x"
| "join sep (x # y # ys) = x @ sep @ join sep (y # ys)"

text \<open>
  A file opened with mode \<open>w\<close> starts empty, and \<open>f.write(s)\<close> appends \<open>s\<close> to what was
  written so far; the file system maps a path to the text of the file.
\<close>

definition f_write :: "string \<Rightarrow> string \<Rightarrow> string" where
  "f_write f s = f @ s"

definition write_section :: "string \<Rightarrow> string \<times> string \<Rightarrow> string" where
  "write_section f = (\<lambda>(path, content).
     (let f = f_write f (''## '' @ path @ ''\<newline>\<newline>'');
          f = f_write f ''```\<newline>'';
          f = f_write f content;
          f = f_write f ''\<newline>```\<newline>\<newline>''
      in f))"

definition save_analysis ::
    "string list \<Rightarrow> (string \<times> string) list \<Rightarrow> string \<Rightarrow> (string \<rightharpoonup> string)
       \<Rightarrow> (string \<rightharpoonup> string)" where
  "save_analysis structure_lines contents_dict output_file fs =
     (let f = [];
          f = f_write f ''# Repository Structure\<newline>\<newline>'';
          f = f_write f ''```\<newline>'';
          f = f_write f (join ''\<newline>'' structure_lines);
          f = f_write f ''\<newline>```\<newline>\<newline>'';
          f = f_write f ''# File Contents\<newline>\<newline>'';
          f = foldl write_section f contents_dict
      in fs(output_file \<mapsto> f))"

text \<open>The document as the specification words it.\<close>

definition line :: "string \<Rightarrow> string" where
  "line s = s @ ''\<newline>''"

definition blank_line :: string where
  "blank_line = ''\<newline>''"

definition fenced_block :: "string \<Rightarrow> string" where
  "fenced_block body = line ''```'' @ line body @ line ''```''"

definition document_spec :: "string list \<Rightarrow> (string \<times> string) list \<Rightarrow> string" where
  "document_spec tree_lines content_index =
     line ''# Repository Structure'' @ blank_line @
     fenced_block (join ''\<newline>'' tree_lines) @ blank_line @
     line ''# File Contents'' @ blank_line @
     concat (map (\<lambda>(path, content).
                    line (''## '' @ path) @ blank_line @ fenced_block content @ blank_line)
                 content_index)"

section \<open>Example data\<close>

definition demo_listing :: "item list" where
  "demo_listing =
     [\<lparr>name = ''b.txt'', type = ''file'', url = ''u/b''\<rparr>,
      \<lparr>name = ''a.txt'', type = ''file'', url = ''u/a''\<rparr>,
      \<lparr>name = ''z'', type = ''dir'', url = ''u/z''\<rparr>]"

text \<open>
  A small remote repository: the root holds two files and the directory \<open>z\<close>; \<open>z\<close>
  holds three files, one of which shares its locator with a file of the root and one of
  which cannot be fetched.
\<close>

definition demo_sub :: "item list" where
  "demo_sub =
     [\<lparr>name = ''copy.txt'', type = ''file'', url = ''u/a''\<rparr>,
      \<lparr>name = ''c.bin'', type = ''file'', url = ''u/c''\<rparr>,
      \<lparr>name = ''bad.txt'', type = ''file'', url = ''u/e''\<rparr>]"

definition demo_env :: env where
  "demo_env =
     \<lparr>list_remote = (\<lambda>t p. if p = [] then Inr demo_listing
                           else if p = ''z'' then Inr demo_sub
                           else Inl (HTTPError ''404 Client Error'')),
      file_remote = (\<lambda>t u. if u = ''u/a'' then Inr (Content ''aGk='')
                           else if u = ''u/b'' then Inr NoContent
                           else if u = ''u/c'' then Inr (Content ''/w=='')
                           else Inl (HTTPError ''500 Server Error'')),
      decode = (\<lambda>c. if c = ''aGk='' then Some ''hi'' else None)\<rparr>"

definition fresh :: walk where
  "fresh = \<lparr>content_cache = Map.empty, structure = [], contents = [], requests = []\<rparr>"

text \<open>A repository whose directory \<open>z\<close> cannot be listed.\<close>

definition broken_env :: env where
  "broken_env =
     \<lparr>list_remote = (\<lambda>t p. if p = [] then Inr demo_listing
                           else Inl (HTTPError ''403 Client Error'')),
      file_remote = (\<lambda>t u. Inr NoContent),
      decode = (\<lambda>c. None)\<rparr>"






section \<open>Auxiliary notions for the proofs\<close>

text \<open>
  \<open>extends st st'\<close>: the walker only appends lines and requests, only adds cache entries
  and keys of \<open>contents\<close>, and keeps the keys of \<open>contents\<close> distinct.
\<close>

definition extends :: "walk \<Rightarrow> walk \<Rightarrow> bool" where
  "extends st st' \<longleftrightarrow>
     (\<exists>ls. structure st' = structure st @ ls) \<and>
     (\<exists>rs. requests st' = requests st @ rs) \<and>
     content_cache st \<subseteq>\<^sub>m content_cache st' \<and>
     fst ` set (contents st) \<subseteq> fst ` set (contents st') \<and>
     (distinct (map fst (contents st)) \<longrightarrow> distinct (map fst (contents st')))"

text \<open>
  \<open>listing_trace w st r st'\<close>: among the requests sent between \<open>st\<close> and \<open>st'\<close>, a listing
  that failed can only be the last one, and then its error is the outcome \<open>r\<close>; conversely an
  outcome \<open>Inl e\<close> is the error of the last request, a listing.
\<close>

definition listing_trace :: "env \<Rightarrow> walk \<Rightarrow> exn + unit \<Rightarrow> walk \<Rightarrow> bool" where
  "listing_trace w st r st' \<longleftrightarrow>
     (\<exists>rs. requests st' = requests st @ rs \<and>
        (\<forall>j p e. j < length rs \<and> rs ! j = ListDir p \<and>
                 list_remote w (length (requests st) + j) p = Inl e \<longrightarrow>
                 r = Inl e \<and> Suc j = length rs) \<and>
        (\<forall>e. r = Inl e \<longrightarrow>
           (\<exists>p. rs \<noteq> [] \<and> last rs = ListDir p \<and>
                list_remote w (length (requests st) + length rs - 1) p = Inl e)))"


section \<open>The sort order of a listing\<close>






section \<open>Invariants of the walker\<close>

text \<open>
  A relation between the state before a call, its outcome and the state after it holds
  for every run of \<open>process_path\<close> and of its loop as soon as it holds for each single
  effect of the code and is closed under sequencing.
\<close>

lemma walk_closure:
  fixes R :: "walk \<Rightarrow> exn + unit \<Rightarrow> walk \<Rightarrow> bool"
  assumes skip: "\<And>st. R st (Inr ()) st"
    and listing_failed: "\<And>st path e. list_remote w (length (requests st)) path = Inl e \<Longrightarrow>
           R st (Inl e) (st\<lparr>requests := requests st @ [ListDir path]\<rparr>)"
    and listing_done: "\<And>st path items. list_remote w (length (requests st)) path = Inr items \<Longrightarrow>
           R st (Inr ()) (st\<lparr>requests := requests st @ [ListDir path]\<rparr>)"
    and line: "\<And>st l. R st (Inr ()) (st\<lparr>structure := structure st @ [l]\<rparr>)"
    and fetch: "\<And>st u fr st2. get_file_content w u st = (fr, st2) \<Longrightarrow> R st (Inr ()) st2"
    and store: "\<And>st k v. R st (Inr ()) (st\<lparr>contents := AList.update k v (contents st)\<rparr>)"
    and seq: "\<And>st st1 r st2. R st (Inr ()) st1 \<Longrightarrow> R st1 r st2 \<Longrightarrow> R st r st2"
  shows "process_path n w path prefix st = Some (r, st') \<Longrightarrow> R st r st'"
    and "process_items n w path prefix cnt items st = Some (r, st') \<Longrightarrow> R st r st'"
proof -
  have loop: "R st r st'"
    if run: "process_items n w path prefix cnt items st = Some (r, st')"
      and sub: "\<And>path prefix st r st'.
               process_path n w path prefix st = Some (r, st') \<Longrightarrow> R st r st'"
    for n path prefix cnt items st r st'
    using run
  proof (induction items arbitrary: st)
    case Nil
    then have "r = Inr ()" "st' = st" by simp_all
    with skip [of st] show ?case by simp
  next
    case (Cons p rest)
    obtain idx it where p: "p = (idx, it)" by (cases p)
    let ?st1 = "st\<lparr>structure := structure st @ [structure_path prefix idx cnt it]\<rparr>"
    have l: "R st (Inr ()) ?st1" by (rule line)
    show ?case
    proof (cases "type it = ''dir''")
      case True
      show ?thesis
      proof (cases "process_path n w (full_path path it) (new_prefix prefix idx cnt) ?st1")
        case None
        with Cons.prems True p show ?thesis by (simp add: Let_def)
      next
        case (Some res)
        obtain r1 st2 where res: "res = (r1, st2)" by (cases res)
        have kids: "R ?st1 r1 st2"
          using sub Some res by simp
        show ?thesis
        proof (cases r1)
          case (Inl e)
          with Cons.prems True Some res p have "r = Inl e" "st' = st2"
            by (simp_all add: Let_def)
          with kids Inl l show ?thesis by (auto intro: seq)
        next
          case (Inr u)
          with Cons.prems True Some res p
          have "process_items n w path prefix cnt rest st2 = Some (r, st')"
            by (simp add: Let_def)
          then have "R st2 r st'" by (rule Cons.IH)
          with kids Inr l show ?thesis by (auto intro: seq)
        qed
      qed
    next
      case False
      obtain fr st2 where g: "get_file_content w (url it) ?st1 = (fr, st2)"
        by (cases "get_file_content w (url it) ?st1")
      have f: "R ?st1 (Inr ()) st2" using g by (rule fetch)
      define v where "v = (case fr of Inl e \<Rightarrow> error_reading e | Inr c \<Rightarrow> c)"
      let ?st3 = "st2\<lparr>contents := AList.update (full_path path it) v (contents st2)\<rparr>"
      from Cons.prems False g p
      have "process_items n w path prefix cnt rest ?st3 = Some (r, st')"
        by (cases fr) (simp_all add: Let_def v_def)
      then have "R ?st3 r st'" by (rule Cons.IH)
      with store [of st2] have "R st2 r st'" by (rule seq)
      with f have "R ?st1 r st'" by (rule seq)
      with l show ?thesis by (rule seq)
    qed
  qed
  have dir: "process_path n w path prefix st = Some (r, st') \<Longrightarrow> R st r st'"
    for n path prefix st r st'
  proof (induction n arbitrary: path prefix st r st')
    case 0
    then show ?case by simp
  next
    case (Suc n)
    let ?st1 = "st\<lparr>requests := requests st @ [ListDir path]\<rparr>"
    show ?case
    proof (cases "list_remote w (length (requests st)) path")
      case (Inl e)
      with Suc.prems have "r = Inl e" "st' = ?st1"
        by (simp_all add: get_contents_def)
      with listing_failed [OF Inl] show ?thesis by simp
    next
      case (Inr items)
      with Suc.prems
      have "process_items n w path prefix (length (sort_items items))
                   (enumerate 0 (sort_items items)) ?st1 = Some (r, st')"
        by (simp add: get_contents_def Let_def)
      then have "R ?st1 r st'"
        by (rule loop) (rule Suc.IH)
      with listing_done [OF Inr] show ?thesis by (rule seq)
    qed
  qed
  show "process_path n w path prefix st = Some (r, st') \<Longrightarrow> R st r st'"
    by (rule dir)
  show "process_items n w path prefix cnt items st = Some (r, st') \<Longrightarrow> R st r st'"
    by (erule loop) (rule dir)
qed


section \<open>The example run\<close>

lemmas demo_simps =
  demo_env_def demo_listing_def demo_sub_def fresh_def get_contents_def get_file_content_def
  sort_items_def sort_key_of_def structure_path_def connector_def new_prefix_def full_path_def
  error_reading_def no_content_marker_def decode_error_marker_def
  connector_last_def connector_mid_def prefix_last_def prefix_mid_def Let_def


section \<open>The fetcher's soft failures\<close>

text \<open>
  Claim C7. When the fetcher sends a request (the locator is not cached) and the request
  succeeds, a payload without a \<open>content\<close> field yields exactly the marker
  \<open>Non-text content or unexpected format.\<close>, and a \<open>content\<close> field that cannot be
  decoded yields exactly \<open>Error decoding content (possibly binary file).\<close>; in both cases
  the call returns normally and the marker is stored in the cache under the locator.
\<close>

theorem get_file_content_soft_fail:
  assumes "content_cache st u = None"
    and "file_remote w (length (requests st)) u = Inr pl"
  shows "(pl = NoContent \<longrightarrow>
            get_file_content w u st =
              (Inr ''Non-text content or unexpected format.'',
               st\<lparr>requests := requests st @ [GetFile u],
                  content_cache := (content_cache st)
                     (u \<mapsto> ''Non-text content or unexpected format.'')\<rparr>))
       \<and> (\<forall>c. pl = Content c \<and> decode w c = None \<longrightarrow>
            get_file_content w u st =
              (Inr ''Error decoding content (possibly binary file).'',
               st\<lparr>requests := requests st @ [GetFile u],
                  content_cache := (content_cache st)
                     (u \<mapsto> ''Error decoding content (possibly binary file).'')\<rparr>))"
  using assms
  by (auto simp: get_file_content_def no_content_marker_def decode_error_marker_def Let_def)

theorem get_file_content_soft_fail_witness:
  "content_cache fresh ''u/b'' = None \<and>
   file_remote demo_env (length (requests fresh)) ''u/b'' = Inr NoContent \<and>
   content_cache fresh ''u/c'' = None \<and>
   file_remote demo_env (length (requests fresh)) ''u/c'' = Inr (Content ''/w=='') \<and>
   decode demo_env ''/w=='' = None \<and>
   fst (get_file_content demo_env ''u/b'' fresh) = Inr ''Non-text content or unexpected format.'' \<and>
   content_cache (snd (get_file_content demo_env ''u/b'' fresh)) ''u/b''
     = Some ''Non-text content or unexpected format.'' \<and>
   fst (get_file_content demo_env ''u/c'' fresh) = Inr ''Error decoding content (possibly binary file).'' \<and>
   content_cache (snd (get_file_content demo_env ''u/c'' fresh)) ''u/c''
     = Some ''Error decoding content (possibly binary file).''"
proof -
  have b: "content_cache fresh ''u/b'' = None"
    "file_remote demo_env (length (requests fresh)) ''u/b'' = Inr NoContent"
    by (simp_all add: fresh_def demo_env_def)
  have c: "content_cache fresh ''u/c'' = None"
    "file_remote demo_env (length (requests fresh)) ''u/c'' = Inr (Content ''/w=='')"
    "decode demo_env ''/w=='' = None"
    by (simp_all add: fresh_def demo_env_def)
  show ?thesis
    using get_file_content_soft_fail [OF b] get_file_content_soft_fail [OF c(1,2)] b c
    by simp
qed


section \<open>What a run leaves in place\<close>

lemma extends_refl: "extends st st"
  by (simp add: extends_def)

lemma extends_trans: "extends a b \<Longrightarrow> extends b c \<Longrightarrow> extends a c"
  unfolding extends_def by (auto intro: map_le_trans)

lemma get_file_content_frame:
  assumes "get_file_content w u st = (fr, st')"
  shows "structure st' = structure st" and "contents st' = contents st"
  using assms
  by (auto simp: get_file_content_def Let_def split: option.splits sum.splits payload.splits)

lemma extends_get_file_content: "get_file_content w u st = (fr, st') \<Longrightarrow> extends st st'"
  by (auto simp: get_file_content_def extends_def Let_def map_le_def
           split: option.splits sum.splits payload.splits)

lemma extends_store: "extends st (st\<lparr>contents := AList.update k v (contents st)\<rparr>)"
  by (auto simp: extends_def distinct_update dom_update image_iff)

lemma walk_extends:
  "process_path n w path prefix st = Some (r, st') \<Longrightarrow> extends st st'"
  "process_items n w path prefix cnt items st = Some (r, st') \<Longrightarrow> extends st st'"
proof -
  show "process_path n w path prefix st = Some (r, st') \<Longrightarrow> extends st st'"
    by (rule walk_closure(1) [where R = "\<lambda>a r b. extends a b" and w = w])
       (auto simp: extends_refl extends_store extends_get_file_content
             intro: extends_trans, auto simp: extends_def)
  show "process_items n w path prefix cnt items st = Some (r, st') \<Longrightarrow> extends st st'"
    by (rule walk_closure(2) [where R = "\<lambda>a r b. extends a b" and w = w])
       (auto simp: extends_refl extends_store extends_get_file_content
             intro: extends_trans, auto simp: extends_def)
qed


lemma process_items_dir:
  assumes "type it = ''dir''"
  shows "process_items n w path prefix cnt ((idx, it) # rest) st =
     (case process_path n w (full_path path it) (new_prefix prefix idx cnt)
             (st\<lparr>structure := structure st @ [structure_path prefix idx cnt it]\<rparr>) of
        None \<Rightarrow> None
      | Some (Inl e, st2) \<Rightarrow> Some (Inl e, st2)
      | Some (Inr u, st2) \<Rightarrow> process_items n w path prefix cnt rest st2)"
  using assms by (simp add: Let_def)

lemma process_items_file:
  assumes "type it \<noteq> ''dir''"
    and "get_file_content w (url it)
           (st\<lparr>structure := structure st @ [structure_path prefix idx cnt it]\<rparr>) = (fr, st2)"
  shows "process_items n w path prefix cnt ((idx, it) # rest) st =
     process_items n w path prefix cnt rest
       (st2\<lparr>contents := AList.update (full_path path it)
           (case fr of Inl e \<Rightarrow> error_reading e | Inr c \<Rightarrow> c) (contents st2)\<rparr>)"
  using assms by (cases fr) (simp_all add: Let_def)



lemma process_items_all_visited:
  "process_items n w path prefix cnt items st = Some (Inr u, st') \<Longrightarrow>
   (idx, it) \<in> set items \<Longrightarrow>
   structure_path prefix idx cnt it \<in> set (structure st') \<and>
   (type it \<noteq> ''dir'' \<longrightarrow> full_path path it \<in> fst ` set (contents st'))"
proof (induction items arbitrary: st)
  case Nil
  then show ?case by simp
next
  case (Cons p rest)
  obtain i x where p: "p = (i, x)" by (cases p)
  let ?l = "structure_path prefix i cnt x"
  let ?st1 = "st\<lparr>structure := structure st @ [?l]\<rparr>"
  have "\<exists>st2. ?l \<in> set (structure st2) \<and>
          (type x \<noteq> ''dir'' \<longrightarrow> full_path path x \<in> fst ` set (contents st2)) \<and>
          process_items n w path prefix cnt rest st2 = Some (Inr u, st')"
  proof (cases "type x = ''dir''")
    case True
    with Cons.prems p obtain u1 st2 where
      sub: "process_path n w (full_path path x) (new_prefix prefix i cnt) ?st1 = Some (Inr u1, st2)"
      and run: "process_items n w path prefix cnt rest st2 = Some (Inr u, st')"
      by (auto simp: process_items_dir split: option.splits sum.splits)
    from walk_extends(1) [OF sub] obtain kids where "structure st2 = structure ?st1 @ kids"
      by (auto simp: extends_def)
    then have "?l \<in> set (structure st2)" by simp
    with run True show ?thesis by blast
  next
    case False
    obtain fr st2 where g: "get_file_content w (url x) ?st1 = (fr, st2)"
      by (cases "get_file_content w (url x) ?st1")
    let ?st3 = "st2\<lparr>contents := AList.update (full_path path x)
           (case fr of Inl e \<Rightarrow> error_reading e | Inr c \<Rightarrow> c) (contents st2)\<rparr>"
    from Cons.prems p process_items_file [OF False g]
    have run: "process_items n w path prefix cnt rest ?st3 = Some (Inr u, st')"
      by simp
    have "?l \<in> set (structure ?st3)"
      using get_file_content_frame(1) [OF g] by simp
    moreover have "full_path path x \<in> fst ` set (contents ?st3)"
      by (simp add: dom_update)
    ultimately show ?thesis using run by blast
  qed
  then obtain st2 where here: "?l \<in> set (structure st2)"
      "type x \<noteq> ''dir'' \<longrightarrow> full_path path x \<in> fst ` set (contents st2)"
    and run: "process_items n w path prefix cnt rest st2 = Some (Inr u, st')"
    by blast
  from walk_extends(2) [OF run] have mono: "set (structure st2) \<subseteq> set (structure st')"
      "fst ` set (contents st2) \<subseteq> fst ` set (contents st')"
    by (auto simp: extends_def)
  show ?case
  proof (cases "(idx, it) = p")
    case True
    with here mono p show ?thesis by auto
  next
    case False
    with Cons.prems have "(idx, it) \<in> set rest" by simp
    from Cons.IH [OF run this] show ?thesis .
  qed
qed

lemma process_items_files_total:
  "\<forall>p \<in> set items. type (snd p) \<noteq> ''dir'' \<Longrightarrow>
   \<exists>st'. process_items n w path prefix cnt items st = Some (Inr (), st')"
proof (induction items arbitrary: st)
  case Nil
  then show ?case by simp
next
  case (Cons p rest)
  obtain i x where p: "p = (i, x)" by (cases p)
  let ?st1 = "st\<lparr>structure := structure st @ [structure_path prefix i cnt x]\<rparr>"
  obtain fr st2 where g: "get_file_content w (url x) ?st1 = (fr, st2)"
    by (cases "get_file_content w (url x) ?st1")
  from Cons.prems p have f: "type x \<noteq> ''dir''" by simp
  from Cons.prems have "\<forall>p \<in> set rest. type (snd p) \<noteq> ''dir''" by simp
  from Cons.IH [OF this] show ?case
    unfolding p process_items_file [OF f g] by blast
qed


text \<open>
  The depth bound only decides whether a run is followed to its end: a run that returns
  within a bound returns the same outcome and state within every larger one.
\<close>

lemma fuel_mono:
  "process_path n w path prefix st = Some res \<Longrightarrow>
   process_path (n + k) w path prefix st = Some res"
  "process_items n w path prefix cnt items st = Some res \<Longrightarrow>
   process_items (n + k) w path prefix cnt items st = Some res"
proof -
  have loop: "process_items (n + k) w path prefix cnt items st = Some res"
    if run: "process_items n w path prefix cnt items st = Some res"
      and sub: "\<And>path prefix st res.
               process_path n w path prefix st = Some res \<Longrightarrow>
               process_path (n + k) w path prefix st = Some res"
    for n path prefix cnt items st res
    using run
  proof (induction items arbitrary: st)
    case Nil
    then show ?case by simp
  next
    case (Cons p rest)
    obtain idx it where p: "p = (idx, it)" by (cases p)
    let ?st1 = "st\<lparr>structure := structure st @ [structure_path prefix idx cnt it]\<rparr>"
    show ?case
    proof (cases "type it = ''dir''")
      case True
      from Cons.prems obtain r1 st2 where
        kids: "process_path n w (full_path path it) (new_prefix prefix idx cnt) ?st1
                 = Some (r1, st2)"
        unfolding p process_items_dir [OF True] by (auto split: option.splits)
      note kids' = sub [OF kids]
      show ?thesis
      proof (cases r1)
        case (Inl e)
        with Cons.prems kids have "res = (Inl e, st2)"
          unfolding p process_items_dir [OF True] by simp
        with kids' Inl show ?thesis
          unfolding p process_items_dir [OF True] by simp
      next
        case (Inr u)
        with Cons.prems kids have "process_items n w path prefix cnt rest st2 = Some res"
          unfolding p process_items_dir [OF True] by simp
        from Cons.IH [OF this] kids' Inr show ?thesis
          unfolding p process_items_dir [OF True] by simp
      qed
    next
      case False
      obtain fr st2 where g: "get_file_content w (url it) ?st1 = (fr, st2)"
        by (cases "get_file_content w (url it) ?st1")
      from Cons.prems show ?thesis
        unfolding p process_items_file [OF False g] by (rule Cons.IH)
    qed
  qed
  have dir: "process_path n w path prefix st = Some res \<Longrightarrow>
             process_path (n + k) w path prefix st = Some res" for n path prefix st res
  proof (induction n arbitrary: path prefix st res)
    case 0
    then show ?case by simp
  next
    case (Suc n)
    show ?case
    proof (cases "list_remote w (length (requests st)) path")
      case (Inl e)
      with Suc.prems show ?thesis by (simp add: get_contents_def)
    next
      case (Inr items)
      with Suc.prems
      have "process_items n w path prefix (length (sort_items items))
                   (enumerate 0 (sort_items items))
                   (st\<lparr>requests := requests st @ [ListDir path]\<rparr>) = Some res"
        by (simp add: get_contents_def Let_def)
      then have "process_items (n + k) w path prefix (length (sort_items items))
                   (enumerate 0 (sort_items items))
                   (st\<lparr>requests := requests st @ [ListDir path]\<rparr>) = Some res"
        by (rule loop) (rule Suc.IH)
      with Inr show ?thesis by (simp add: get_contents_def Let_def)
    qed
  qed
  show "process_path n w path prefix st = Some res \<Longrightarrow>
        process_path (n + k) w path prefix st = Some res"
    by (rule dir)
  show "process_items n w path prefix cnt items st = Some res \<Longrightarrow>
        process_items (n + k) w path prefix cnt items st = Some res"
    by (erule loop) (rule dir)
qed

lemma analyze_repo_fuel_mono:
  "analyze_repo n w a = Some res \<Longrightarrow> analyze_repo (n + k) w a = Some res"
  unfolding analyze_repo_def
  by (auto split: option.splits dest: fuel_mono(1) [where k = k])

section \<open>Tree lines\<close>









section \<open>Errors of a file fetch\<close>

text \<open>
  Claim C4. When the fetch of a file entry raises \<open>e\<close>, the entry's iteration ends
  normally with \<open>Error reading file: \<close> followed by \<open>str e\<close> stored under the entry's full
  path, and the loop goes on with the next sibling from that state. If the loop then
  reaches its end, every sibling has its line in \<open>structure\<close> and every file sibling has a
  key in \<open>contents\<close>; if the later siblings are all files, the loop does reach its end.
\<close>

theorem file_error_recorded:
  assumes "type it \<noteq> ''dir''"
    and "get_file_content w (url it)
           (st\<lparr>structure := structure st @ [structure_path prefix idx cnt it]\<rparr>) = (Inl e, st2)"
  shows "\<exists>st3.
     st3 = st2\<lparr>contents := AList.update (full_path path it)
                    (''Error reading file: '' @ str e) (contents st2)\<rparr> \<and>
     process_items n w path prefix cnt [(idx, it)] st = Some (Inr (), st3) \<and>
     map_of (contents st3) (full_path path it) = Some (''Error reading file: '' @ str e) \<and>
     process_items n w path prefix cnt ((idx, it) # rest) st
       = process_items n w path prefix cnt rest st3 \<and>
     (\<forall>u st'. process_items n w path prefix cnt ((idx, it) # rest) st = Some (Inr u, st') \<longrightarrow>
        (\<forall>(i, s) \<in> set ((idx, it) # rest).
           structure_path prefix i cnt s \<in> set (structure st') \<and>
           (type s \<noteq> ''dir'' \<longrightarrow> full_path path s \<in> fst ` set (contents st')))) \<and>
     ((\<forall>p \<in> set rest. type (snd p) \<noteq> ''dir'') \<longrightarrow>
        (\<exists>st'. process_items n w path prefix cnt ((idx, it) # rest) st = Some (Inr (), st')))"
proof -
  let ?st3 = "st2\<lparr>contents := AList.update (full_path path it)
                    (''Error reading file: '' @ str e) (contents st2)\<rparr>"
  have step: "process_items n w path prefix cnt ((idx, it) # rest) st
       = process_items n w path prefix cnt rest ?st3" for rest
    using process_items_file [OF assms] by (simp add: error_reading_def)
  have one: "process_items n w path prefix cnt [(idx, it)] st = Some (Inr (), ?st3)"
    unfolding step by simp
  have key: "map_of (contents ?st3) (full_path path it) = Some (''Error reading file: '' @ str e)"
    by (simp add: update_conv')
  have seen: "\<forall>u st'. process_items n w path prefix cnt ((idx, it) # rest) st = Some (Inr u, st') \<longrightarrow>
        (\<forall>(i, s) \<in> set ((idx, it) # rest).
           structure_path prefix i cnt s \<in> set (structure st') \<and>
           (type s \<noteq> ''dir'' \<longrightarrow> full_path path s \<in> fst ` set (contents st')))"
    using process_items_all_visited by blast
  have total: "(\<forall>p \<in> set rest. type (snd p) \<noteq> ''dir'') \<longrightarrow>
        (\<exists>st'. process_items n w path prefix cnt ((idx, it) # rest) st = Some (Inr (), st'))"
    unfolding step using process_items_files_total by blast
  from one key step seen total show ?thesis by blast
qed

theorem file_error_recorded_witness:
  "\<exists>st2 st'.
     type \<lparr>name = ''bad.txt'', type = ''file'', url = ''u/e''\<rparr> \<noteq> ''dir'' \<and>
     get_file_content demo_env (url \<lparr>name = ''bad.txt'', type = ''file'', url = ''u/e''\<rparr>)
       (fresh\<lparr>structure := structure fresh @
          [structure_path prefix_mid 0 3 \<lparr>name = ''bad.txt'', type = ''file'', url = ''u/e''\<rparr>]\<rparr>)
       = (Inl (HTTPError ''500 Server Error''), st2) \<and>
     process_items 0 demo_env ''z'' prefix_mid 3
       ((0, \<lparr>name = ''bad.txt'', type = ''file'', url = ''u/e''\<rparr>) #
        [(1, \<lparr>name = ''c.bin'', type = ''file'', url = ''u/c''\<rparr>),
         (2, \<lparr>name = ''copy.txt'', type = ''file'', url = ''u/a''\<rparr>)]) fresh = Some (Inr (), st') \<and>
     structure st' =
       [prefix_mid @ connector_mid @ ''bad.txt'',
        prefix_mid @ connector_mid @ ''c.bin'',
        prefix_mid @ connector_last @ ''copy.txt''] \<and>
     contents st' =
       [(''z/bad.txt'', ''Error reading file: 500 Server Error''),
        (''z/c.bin'', ''Error decoding content (possibly binary file).''),
        (''z/copy.txt'', ''hi'')]"
proof -
  let ?bad = "\<lparr>name = ''bad.txt'', type = ''file'', url = ''u/e''\<rparr>"
  have f: "type ?bad \<noteq> ''dir''" by simp
  have g: "get_file_content demo_env (url ?bad)
       (fresh\<lparr>structure := structure fresh @ [structure_path prefix_mid 0 3 ?bad]\<rparr>)
       = (Inl (HTTPError ''500 Server Error''),
          fresh\<lparr>structure := [prefix_mid @ connector_mid @ ''bad.txt''],
                requests := [GetFile ''u/e'']\<rparr>)"
    by (simp add: demo_simps)
  from file_error_recorded [OF f g, where n = 0 and path = "''z''" and rest =
      "[(1, \<lparr>name = ''c.bin'', type = ''file'', url = ''u/c''\<rparr>),
        (2, \<lparr>name = ''copy.txt'', type = ''file'', url = ''u/a''\<rparr>)]"] f g
  show ?thesis
    by (simp add: demo_simps)
qed


section \<open>A failed listing\<close>

lemma listing_trace_same:
  "requests st' = requests st \<Longrightarrow> listing_trace w st (Inr ()) st'"
  by (simp add: listing_trace_def)

lemma listing_trace_fetch:
  "get_file_content w u st = (fr, st2) \<Longrightarrow> listing_trace w st (Inr ()) st2"
  by (auto simp: get_file_content_def listing_trace_def Let_def
           split: option.splits sum.splits payload.splits)

lemma listing_trace_seq:
  assumes a: "listing_trace w st (Inr ()) st1" and b: "listing_trace w st1 r st2"
  shows "listing_trace w st r st2"
proof -
  from a obtain rs1 where rs1: "requests st1 = requests st @ rs1"
    and ok1: "\<And>j p e. j < length rs1 \<Longrightarrow> rs1 ! j = ListDir p \<Longrightarrow>
                 list_remote w (length (requests st) + j) p = Inl e \<Longrightarrow> False"
    unfolding listing_trace_def by blast
  from b obtain rs2 where rs2: "requests st2 = requests st1 @ rs2"
    and ok2: "\<And>j p e. j < length rs2 \<Longrightarrow> rs2 ! j = ListDir p \<Longrightarrow>
                 list_remote w (length (requests st1) + j) p = Inl e \<Longrightarrow>
                 r = Inl e \<and> Suc j = length rs2"
    and last2: "\<And>e. r = Inl e \<Longrightarrow>
           (\<exists>p. rs2 \<noteq> [] \<and> last rs2 = ListDir p \<and>
                list_remote w (length (requests st1) + length rs2 - 1) p = Inl e)"
    unfolding listing_trace_def by blast
  have 1: "requests st2 = requests st @ (rs1 @ rs2)" using rs1 rs2 by simp
  have 2: "r = Inl e \<and> Suc j = length (rs1 @ rs2)"
    if "j < length (rs1 @ rs2)" "(rs1 @ rs2) ! j = ListDir p"
       "list_remote w (length (requests st) + j) p = Inl e" for j p e
  proof (cases "j < length rs1")
    case True
    with that ok1 [of j p e] show ?thesis by (simp add: nth_append)
  next
    case False
    then have j: "j = length rs1 + (j - length rs1)" by simp
    from that False have "j - length rs1 < length rs2" "rs2 ! (j - length rs1) = ListDir p"
      by (auto simp: nth_append)
    moreover have "list_remote w (length (requests st1) + (j - length rs1)) p = Inl e"
      using that(3) False rs1 by (simp add: add.assoc)
    ultimately have "r = Inl e \<and> Suc (j - length rs1) = length rs2"
      by (rule ok2)
    with False show ?thesis by auto
  qed
  have 3: "\<exists>p. rs1 @ rs2 \<noteq> [] \<and> last (rs1 @ rs2) = ListDir p \<and>
                list_remote w (length (requests st) + length (rs1 @ rs2) - 1) p = Inl e"
    if "r = Inl e" for e
  proof -
    from last2 [OF that] obtain p where p: "rs2 \<noteq> []" "last rs2 = ListDir p"
      "list_remote w (length (requests st1) + length rs2 - 1) p = Inl e" by blast
    then show ?thesis using rs1 by (auto simp: add.assoc)
  qed
  show ?thesis unfolding listing_trace_def using 1 2 3 by blast
qed

lemma walk_listing_trace:
  "process_path n w path prefix st = Some (r, st') \<Longrightarrow> listing_trace w st r st'"
proof (rule walk_closure(1) [where R = "listing_trace w" and w = w])
  fix st :: walk and path e assume "list_remote w (length (requests st)) path = Inl e"
  then show "listing_trace w st (Inl e) (st\<lparr>requests := requests st @ [ListDir path]\<rparr>)"
    by (simp add: listing_trace_def)
next
  fix st :: walk and path items assume "list_remote w (length (requests st)) path = Inr items"
  then show "listing_trace w st (Inr ()) (st\<lparr>requests := requests st @ [ListDir path]\<rparr>)"
    by (simp add: listing_trace_def)
qed (auto simp: listing_trace_same listing_trace_fetch intro: listing_trace_seq)

lemma listing_failure_last:
  assumes "analyze_repo n w a = Some (res, a')"
    and "length (sent a) \<le> i" and "i < length (sent a')"
    and "sent a' ! i = ListDir p" and "list_remote w i p = Inl e"
  shows "res = Inl e \<and> Suc i = length (sent a')"
proof -
  let ?st = "\<lparr>content_cache = cache a, structure = [], contents = [], requests = sent a\<rparr>"
  from assms(1) obtain r st' where run: "process_path n w [] [] ?st = Some (r, st')"
    and res: "res = (case r of Inl e \<Rightarrow> Inl e | Inr u \<Rightarrow> Inr (structure st', contents st'))"
    and a': "sent a' = requests st'"
    by (auto simp: analyze_repo_def split: option.splits sum.splits)
  from walk_listing_trace [OF run] obtain rs where rs: "requests st' = sent a @ rs"
    and ok: "\<And>j p e. j < length rs \<Longrightarrow> rs ! j = ListDir p \<Longrightarrow>
                 list_remote w (length (sent a) + j) p = Inl e \<Longrightarrow>
                 r = Inl e \<and> Suc j = length rs"
    unfolding listing_trace_def by auto
  let ?j = "i - length (sent a)"
  have "?j < length rs" "rs ! ?j = ListDir p" "list_remote w (length (sent a) + ?j) p = Inl e"
    using assms(2-5) a' rs by (auto simp: nth_append)
  then have "r = Inl e \<and> Suc ?j = length rs" by (rule ok)
  with res a' rs assms(2) show ?thesis by auto
qed

text \<open>
  Claim C5. A listing request that fails ends the traversal with its error. In a run of
  \<open>analyze_repo\<close> that returns, a listing request (for the root or for any nested
  directory) that fails with \<open>e\<close> is the last request of the run and the run ends with
  the exception \<open>e\<close>, so no pair of structure and contents is returned. The call does
  return: when the listing of the root fails, \<open>analyze_repo\<close> raises \<open>e\<close> at once, and when
  the listing of a directory entry fails, the loop raises \<open>e\<close> right after the entry's line
  and its request, without visiting the later siblings.
\<close>

theorem listing_failure_aborts:
  "(\<forall>res a' i p e.
      analyze_repo n w a = Some (res, a') \<and> length (sent a) \<le> i \<and> i < length (sent a') \<and>
      sent a' ! i = ListDir p \<and> list_remote w i p = Inl e \<longrightarrow>
      res = Inl e \<and> Suc i = length (sent a'))
   \<and> (\<forall>e. list_remote w (length (sent a)) [] = Inl e \<longrightarrow>
         analyze_repo (Suc n) w a
           = Some (Inl e, \<lparr>cache = cache a, sent = sent a @ [ListDir []]\<rparr>))
   \<and> (\<forall>e. type it = ''dir'' \<and>
           list_remote w (length (requests st)) (full_path path it) = Inl e \<longrightarrow>
         process_items (Suc n) w path prefix cnt ((idx, it) # rest) st
           = Some (Inl e,
                   st\<lparr>structure := structure st @ [structure_path prefix idx cnt it],
                      requests := requests st @ [ListDir (full_path path it)]\<rparr>))"
proof (intro conjI allI impI)
  fix res a' i p e
  assume "analyze_repo n w a = Some (res, a') \<and> length (sent a) \<le> i \<and> i < length (sent a') \<and>
      sent a' ! i = ListDir p \<and> list_remote w i p = Inl e"
  then have "res = Inl e \<and> Suc i = length (sent a')"
    using listing_failure_last [of n w a res a' i p e] by blast
  then show "res = Inl e" and "Suc i = length (sent a')" by simp_all
next
  fix e assume "list_remote w (length (sent a)) [] = Inl e"
  then show "analyze_repo (Suc n) w a
           = Some (Inl e, \<lparr>cache = cache a, sent = sent a @ [ListDir []]\<rparr>)"
    by (simp add: analyze_repo_def get_contents_def)
next
  fix e
  assume "type it = ''dir'' \<and> list_remote w (length (requests st)) (full_path path it) = Inl e"
  then show "process_items (Suc n) w path prefix cnt ((idx, it) # rest) st
           = Some (Inl e,
                   st\<lparr>structure := structure st @ [structure_path prefix idx cnt it],
                      requests := requests st @ [ListDir (full_path path it)]\<rparr>)"
    by (simp add: process_items_dir get_contents_def)
qed

theorem listing_failure_aborts_witness:
  "\<exists>a'. analyze_repo 2 broken_env \<lparr>cache = Map.empty, sent = []\<rparr>
          = Some (Inl (HTTPError ''403 Client Error''), a') \<and>
     length (sent \<lparr>cache = Map.empty, sent = []\<rparr>) \<le> 1 \<and> 1 < length (sent a') \<and>
     sent a' ! 1 = ListDir ''z'' \<and>
     list_remote broken_env 1 ''z'' = Inl (HTTPError ''403 Client Error'') \<and>
     Suc 1 = length (sent a')"
proof -
  let ?a' = "\<lparr>cache = Map.empty, sent = [ListDir [], ListDir ''z'']\<rparr>"
  have run: "analyze_repo 2 broken_env \<lparr>cache = Map.empty, sent = []\<rparr>
      = Some (Inl (HTTPError ''403 Client Error''), ?a')"
    by (simp add: analyze_repo_def numeral_2_eq_2 broken_env_def demo_simps)
  have h: "length (sent \<lparr>cache = Map.empty, sent = []\<rparr>) \<le> 1 \<and>
    1 < length (sent ?a') \<and> sent ?a' ! 1 = ListDir ''z'' \<and>
    list_remote broken_env 1 ''z'' = Inl (HTTPError ''403 Client Error'')"
    by (simp add: broken_env_def)
  from listing_failure_aborts [THEN conjunct1, rule_format, OF conjI [OF run h]]
  have "Suc 1 = length (sent ?a')" by simp
  with run h show ?thesis by simp
qed

section \<open>The cache of the fetcher\<close>

















section \<open>Two entries with one full path\<close>









section \<open>The document\<close>

lemma foldl_write_section:
  "foldl write_section f cs =
     f @ concat (map (\<lambda>(path, content).
                    line (''## '' @ path) @ blank_line @ fenced_block content @ blank_line) cs)"
  by (induction cs arbitrary: f)
     (simp_all add: write_section_def f_write_def line_def blank_line_def fenced_block_def
        split: prod.splits)

text \<open>
  Claim C9. \<open>save_analysis\<close> leaves in the output file exactly the document of the
  specification: the line \<open># Repository Structure\<close> and a blank line, the fenced block of
  the tree lines joined by newlines, a blank line, the line \<open># File Contents\<close> and a blank
  line, and then for each pair of the contents, in their order, the line \<open>## path\<close>, a blank
  line, the fenced block of the content and a blank line.
\<close>

theorem save_analysis_document:
  "save_analysis structure_lines contents_dict output_file fs
     = fs(output_file \<mapsto> document_spec structure_lines contents_dict)
   \<and> document_spec [connector_mid @ ''a.txt'', connector_last @ ''b/''] [(''a.txt'', ''hi'')]
     = ''# Repository Structure\<newline>\<newline>```\<newline>'' @
       connector_mid @ ''a.txt\<newline>'' @ connector_last @ ''b/\<newline>'' @
       ''```\<newline>\<newline># File Contents\<newline>\<newline>'' @
       ''## a.txt\<newline>\<newline>```\<newline>hi\<newline>```\<newline>\<newline>''"
proof
  show "save_analysis structure_lines contents_dict output_file fs
     = fs(output_file \<mapsto> document_spec structure_lines contents_dict)"
    by (simp add: save_analysis_def document_spec_def foldl_write_section f_write_def
          line_def blank_line_def fenced_block_def)
  show "document_spec [connector_mid @ ''a.txt'', connector_last @ ''b/''] [(''a.txt'', ''hi'')]
     = ''# Repository Structure\<newline>\<newline>```\<newline>'' @
       connector_mid @ ''a.txt\<newline>'' @ connector_last @ ''b/\<newline>'' @
       ''```\<newline>\<newline># File Contents\<newline>\<newline>'' @
       ''## a.txt\<newline>\<newline>```\<newline>hi\<newline>```\<newline>\<newline>''"
    by (simp add: document_spec_def line_def blank_line_def fenced_block_def)
qed


section \<open>The URL patterns\<close>



































end
